theory Spec2Isabelle
  imports Main "HOL-Library.Word"
begin

unbundle bit_operations_syntax

section \<open>Platform, memory and the region provider\<close>

text \<open>
  The allocator of \<^verbatim>\<open>mm.c\<close> stores a pointer in the 8-byte payload of a minimum block and
  indexes its table with \<^verbatim>\<open>sizeof(size_t*)\<close> and \<^verbatim>\<open>ALIGN(sizeof(size_t))\<close> alike, so it is
  modelled for an LP64, little-endian target: \<^verbatim>\<open>unsigned int\<close> and \<^verbatim>\<open>int\<close> have 32 bits,
  \<^verbatim>\<open>size_t\<close> and pointers 64 bits. Addresses and sizes are mathematical integers; each
  wrap-around of the C arithmetic on \<^verbatim>\<open>size_t\<close>, \<^verbatim>\<open>unsigned int\<close> and \<^verbatim>\<open>int\<close> is written out.
  Pointer arithmetic itself is exact (leaving the address space is undefined in C).
  Memory is a total map from byte addresses to bytes.
\<close>

type_synonym addr = int
type_synonym byte = "8 word"

record mstate =
  mem :: "addr \<Rightarrow> byte"
  mem_brk :: addr
  mem_max_addr :: addr
  seg_lists :: addr
  mem_hp :: addr
  mem_bp :: addr

abbreviation (input) NULL :: addr where "NULL \<equiv> 0"

abbreviation (input) WSIZE :: int where "WSIZE \<equiv> 4"
abbreviation (input) DSIZE :: int where "DSIZE \<equiv> 8"
abbreviation (input) ALIGNMENT :: int where "ALIGNMENT \<equiv> 8"
abbreviation (input) MIN_BLOCK_SIZE :: int where "MIN_BLOCK_SIZE \<equiv> 2 * DSIZE"
abbreviation (input) SEG_LIST_COUNT :: int where "SEG_LIST_COUNT \<equiv> 8"

text \<open>Conversions of the C integer types: \<^verbatim>\<open>size_t\<close>, \<^verbatim>\<open>unsigned int\<close>, and \<^verbatim>\<open>int\<close>
  (two's complement).\<close>

definition size_t :: "int \<Rightarrow> int" where
  "size_t x = x mod 2 ^ 64"

definition uint32 :: "int \<Rightarrow> int" where
  "uint32 x = x mod 2 ^ 32"

definition int32 :: "int \<Rightarrow> int" where
  "int32 x = (x + 2 ^ 31) mod 2 ^ 32 - 2 ^ 31"

text \<open>\<^verbatim>\<open>ALIGN(size)\<close> is \<^verbatim>\<open>(size + (ALIGNMENT-1)) & ~0x7\<close> on \<^verbatim>\<open>size_t\<close>; clearing the three low
  bits of an unsigned value is \<open>x div 8 * 8\<close>.\<close>

definition ALIGN :: "int \<Rightarrow> int" where
  "ALIGN sz = size_t (sz + (ALIGNMENT - 1)) div 8 * 8"

definition PACK :: "int \<Rightarrow> int \<Rightarrow> int" where
  "PACK sz alloc = sz OR alloc"

abbreviation (input) SIZE_T_SIZE :: int where "SIZE_T_SIZE \<equiv> 8"

text \<open>\<^verbatim>\<open>GET\<close>/\<^verbatim>\<open>PUT\<close> move an \<^verbatim>\<open>unsigned int\<close> (4 bytes), \<^verbatim>\<open>GET_PTR_ADDR\<close>/\<^verbatim>\<open>PUT_PTR_ADDR\<close> a
  pointer (8 bytes), least significant byte first.\<close>

definition get4 :: "(addr \<Rightarrow> byte) \<Rightarrow> addr \<Rightarrow> int" where
  "get4 m p = uint (m p) + 256 * uint (m (p + 1)) + 65536 * uint (m (p + 2))
     + 16777216 * uint (m (p + 3))"

definition put4 :: "(addr \<Rightarrow> byte) \<Rightarrow> addr \<Rightarrow> int \<Rightarrow> (addr \<Rightarrow> byte)" where
  "put4 m p v = m(p := word_of_int v, p + 1 := word_of_int (v div 256),
     p + 2 := word_of_int (v div 65536), p + 3 := word_of_int (v div 16777216))"

definition get8 :: "(addr \<Rightarrow> byte) \<Rightarrow> addr \<Rightarrow> int" where
  "get8 m p = get4 m p + 4294967296 * get4 m (p + 4)"

definition put8 :: "(addr \<Rightarrow> byte) \<Rightarrow> addr \<Rightarrow> int \<Rightarrow> (addr \<Rightarrow> byte)" where
  "put8 m p v = put4 (put4 m p v) (p + 4) (v div 4294967296)"

definition GET :: "mstate \<Rightarrow> addr \<Rightarrow> int" where
  "GET s p = get4 (mem s) p"

definition PUT :: "mstate \<Rightarrow> addr \<Rightarrow> int \<Rightarrow> mstate" where
  "PUT s p v = s\<lparr>mem := put4 (mem s) p v\<rparr>"

definition GET_PTR_ADDR :: "mstate \<Rightarrow> addr \<Rightarrow> addr" where
  "GET_PTR_ADDR s p = get8 (mem s) p"

definition PUT_PTR_ADDR :: "mstate \<Rightarrow> addr \<Rightarrow> addr \<Rightarrow> mstate" where
  "PUT_PTR_ADDR s p v = s\<lparr>mem := put8 (mem s) p v\<rparr>"

definition GET_SIZE :: "mstate \<Rightarrow> addr \<Rightarrow> int" where
  "GET_SIZE s p = GET s p div 8 * 8"

definition GET_ALLOC :: "mstate \<Rightarrow> addr \<Rightarrow> int" where
  "GET_ALLOC s p = GET s p mod 2"

definition GET_HEADER :: "addr \<Rightarrow> addr" where
  "GET_HEADER p = p - WSIZE"

definition GET_FOOTER :: "mstate \<Rightarrow> addr \<Rightarrow> addr" where
  "GET_FOOTER s p = p + GET_SIZE s (GET_HEADER p) - DSIZE"

definition GET_NEXT :: "mstate \<Rightarrow> addr \<Rightarrow> addr" where
  "GET_NEXT s p = p + GET_SIZE s (p - WSIZE)"

definition GET_PREV :: "mstate \<Rightarrow> addr \<Rightarrow> addr" where
  "GET_PREV s p = p - GET_SIZE s (p - DSIZE)"

definition GET_NEXT_FREE :: "mstate \<Rightarrow> addr \<Rightarrow> addr" where
  "GET_NEXT_FREE s p = GET_PTR_ADDR s p"

definition INSIDE_HEAP :: "mstate \<Rightarrow> addr \<Rightarrow> bool" where
  "INSIDE_HEAP s p \<longleftrightarrow> mem_hp s \<le> p \<and> p < mem_bp s"

text \<open>\<^verbatim>\<open>memcpy(dst, src, n)\<close>: the \<open>n\<close> bytes at \<open>src\<close>, as they were before the call, land at
  \<open>dst\<close>.\<close>

definition memcpy :: "mstate \<Rightarrow> addr \<Rightarrow> addr \<Rightarrow> int \<Rightarrow> mstate" where
  "memcpy s dst src n =
     s\<lparr>mem := (\<lambda>a. if dst \<le> a \<and> a < dst + n then mem s (src + (a - dst)) else mem s a)\<rparr>"

text \<open>
  Modelled from the spec: \<^verbatim>\<open>memlib.c\<close> (\<^verbatim>\<open>mem_sbrk\<close>, \<^verbatim>\<open>mem_heap_hi\<close>) is not part of the
  sources. The spec's region provider has \<^verbatim>\<open>grow(extraBytes)\<close>, which "extends the region
  monotonically and returns the address of the start of the new extent, or failure if the
  backing store is exhausted", and \<^verbatim>\<open>currentHighAddress()\<close>, the current end of the region,
  taken here as the address of its last byte. The region is \<open>[_, mem_brk)\<close> and may grow up
  to \<open>mem_max_addr\<close>; failure is \<open>None\<close> (the \<^verbatim>\<open>(void *)-1\<close> that \<^verbatim>\<open>mm.c\<close> tests for).
\<close>

definition mem_sbrk :: "mstate \<Rightarrow> int \<Rightarrow> addr option \<times> mstate" where
  "mem_sbrk s incr =
     (if mem_max_addr s < mem_brk s + incr then (None, s)
      else (Some (mem_brk s), s\<lparr>mem_brk := mem_brk s + incr\<rparr>))"

definition mem_heap_hi :: "mstate \<Rightarrow> addr" where
  "mem_heap_hi s = mem_brk s - 1"

section \<open>The allocator\<close>

definition mm_init :: "mstate \<Rightarrow> int \<times> mstate" where
  "mm_init s =
     (let seg_lists_size = SIZE_T_SIZE * SEG_LIST_COUNT in
      case mem_sbrk s (ALIGN seg_lists_size + MIN_BLOCK_SIZE) of
        (None, s0) \<Rightarrow> (- 1, s0\<lparr>seg_lists := 2 ^ 64 - 1\<rparr>)
      | (Some b, s0) \<Rightarrow>
          let s1 = s0\<lparr>seg_lists := b\<rparr>;
              s2 = fold (\<lambda>i t. PUT t (seg_lists t + SIZE_T_SIZE * int i) 0) [0..<8] s1;
              s3 = s2\<lparr>mem_hp := seg_lists s2 + seg_lists_size\<rparr>;
              s4 = s3\<lparr>mem_hp := mem_hp s3 + DSIZE\<rparr>;
              s5 = PUT s4 (GET_HEADER (mem_hp s4)) (PACK MIN_BLOCK_SIZE 1);
              s6 = PUT s5 (GET_FOOTER s5 (mem_hp s5)) (PACK MIN_BLOCK_SIZE 1)
          in (0, s6\<lparr>mem_bp := mem_heap_hi s6\<rparr>))"

definition place :: "mstate \<Rightarrow> addr \<Rightarrow> int \<Rightarrow> mstate" where
  "place s p sz =
     (if p = NULL \<or> sz = 0 then s
      else let s1 = PUT s (GET_HEADER p) (PACK sz 1)
           in PUT s1 (GET_FOOTER s1 p) (PACK sz 1))"

text \<open>\<^verbatim>\<open>int class = size/64\<close> converts a \<^verbatim>\<open>size_t\<close> quotient to \<^verbatim>\<open>int\<close>.\<close>

definition get_size_class :: "int \<Rightarrow> int" where
  "get_size_class sz =
     (let class = int32 (sz div 64) in
      if class \<ge> SEG_LIST_COUNT then SEG_LIST_COUNT - 1
      else if class < 0 then 0
      else class)"

text \<open>The inner \<^verbatim>\<open>for\<close> loop of \<^verbatim>\<open>get_fit\<close>: it follows the chain of a class from \<open>j\<close> and
  yields the first block that is free and large enough, or \<open>NULL\<close> when the chain ends.
  A chain that never ends makes the loop run forever: the value \<open>None\<close>.\<close>

partial_function (option) fit_scan :: "mstate \<Rightarrow> int \<Rightarrow> addr \<Rightarrow> addr option" where
  "fit_scan s sz j =
     (if INSIDE_HEAP s j \<and> j \<noteq> 0 then
        (if GET_ALLOC s (GET_HEADER j) = 0 \<and> GET_SIZE s (GET_HEADER j) \<ge> sz then Some j
         else fit_scan s sz (GET_NEXT_FREE s j))
      else Some NULL)"

declare fit_scan.simps [code]

function get_fit_from :: "mstate \<Rightarrow> int \<Rightarrow> int \<Rightarrow> addr option" where
  "get_fit_from s sz i =
     (if i < SEG_LIST_COUNT then
        (case fit_scan s sz (GET_PTR_ADDR s (seg_lists s + 8 * i)) of
           None \<Rightarrow> None
         | Some j \<Rightarrow> if j \<noteq> NULL then Some j else get_fit_from s sz (i + 1))
      else Some NULL)"
  by pat_completeness auto
termination
  by (relation "measure (\<lambda>(s, sz, i). nat (SEG_LIST_COUNT - i))") auto

definition get_fit :: "mstate \<Rightarrow> int \<Rightarrow> addr option" where
  "get_fit s sz = get_fit_from s sz (get_size_class sz)"

definition grow_heap :: "mstate \<Rightarrow> int \<Rightarrow> addr \<times> mstate" where
  "grow_heap s sz =
     (if sz = 0 then (NULL, s)
      else case mem_sbrk s sz of
        (None, s0) \<Rightarrow> (NULL, s0)
      | (Some b, s0) \<Rightarrow>
          let ptr = b + DSIZE;
              s1 = PUT s0 (GET_HEADER ptr) (PACK sz 0);
              s2 = PUT s1 (GET_FOOTER s1 ptr) (PACK sz 0)
          in (ptr, s2\<lparr>mem_bp := mem_heap_hi s2\<rparr>))"

text \<open>The loop of \<^verbatim>\<open>seg_list_remove\<close>: \<open>k\<close> is the address of the cell that points to \<open>j\<close>.\<close>

partial_function (option) remove_scan :: "mstate \<Rightarrow> addr \<Rightarrow> addr \<Rightarrow> addr \<Rightarrow> mstate option" where
  "remove_scan s p k j =
     (if INSIDE_HEAP s j \<and> j \<noteq> 0 then
        (if p = j then
           (let s1 = (if INSIDE_HEAP s (GET_NEXT_FREE s j) \<and> GET_NEXT_FREE s j \<noteq> 0
                      then PUT_PTR_ADDR s k (GET_NEXT_FREE s j)
                      else PUT_PTR_ADDR s k 0)
            in Some (PUT_PTR_ADDR s1 p 0))
         else remove_scan s p j (GET_NEXT_FREE s j))
      else Some s)"

declare remove_scan.simps [code]

definition seg_list_remove :: "mstate \<Rightarrow> addr \<Rightarrow> mstate option" where
  "seg_list_remove s p =
     (let class_size = get_size_class (GET_SIZE s (GET_HEADER p));
          k = seg_lists s + 8 * class_size
      in remove_scan s p k (GET_PTR_ADDR s (seg_lists s + 8 * class_size)))"

definition seg_list_add :: "mstate \<Rightarrow> addr \<Rightarrow> mstate" where
  "seg_list_add s p =
     (if p = NULL then s
      else
        let class_size = get_size_class (GET_SIZE s (GET_HEADER p));
            s1 = (if GET_PTR_ADDR s (seg_lists s + class_size * SIZE_T_SIZE) \<noteq> 0
                    \<and> GET_PTR_ADDR s (seg_lists s + class_size * SIZE_T_SIZE) \<noteq> p
                  then PUT_PTR_ADDR s p (GET_PTR_ADDR s (seg_lists s + class_size * SIZE_T_SIZE))
                  else PUT_PTR_ADDR s p 0)
        in PUT_PTR_ADDR s1 (seg_lists s1 + class_size * SIZE_T_SIZE) p)"

definition block_size_of :: "int \<Rightarrow> int" where
  "block_size_of sz =
     (let block_size = ALIGN (size_t (sz + DSIZE)) in
      if block_size < MIN_BLOCK_SIZE then ALIGN (size_t (size_t (sz + MIN_BLOCK_SIZE) - sz))
      else block_size)"

definition mm_malloc :: "mstate \<Rightarrow> int \<Rightarrow> (addr \<times> mstate) option" where
  "mm_malloc s sz =
     (if sz = 0 then Some (NULL, s)
      else
        let block_size = block_size_of sz in
        case get_fit s block_size of
          None \<Rightarrow> None
        | Some fit_ptr \<Rightarrow>
            if fit_ptr \<noteq> NULL then
              (let split_remainder = size_t (GET_SIZE s (GET_HEADER fit_ptr) - block_size) in
               if size_t (GET_SIZE s (GET_HEADER fit_ptr) - block_size) \<ge> MIN_BLOCK_SIZE then
                 (case seg_list_remove s fit_ptr of
                    None \<Rightarrow> None
                  | Some s1 \<Rightarrow>
                      let s2 = place s1 fit_ptr block_size;
                          new_ptr = GET_SIZE s2 (GET_HEADER fit_ptr) + fit_ptr;
                          s3 = PUT s2 (GET_HEADER new_ptr) (PACK split_remainder 0);
                          s4 = PUT s3 (GET_FOOTER s3 new_ptr) (PACK split_remainder 0)
                      in Some (fit_ptr, seg_list_add s4 new_ptr))
               else
                 (let s1 = place s fit_ptr (GET_SIZE s (GET_HEADER fit_ptr)) in
                  case seg_list_remove s1 fit_ptr of
                    None \<Rightarrow> None
                  | Some s2 \<Rightarrow> Some (fit_ptr, s2)))
            else
              (case grow_heap s block_size of
                 (ptr, s1) \<Rightarrow>
                   if ptr \<noteq> NULL then Some (ptr, place s1 ptr block_size)
                   else Some (NULL, s1)))"

definition coalesce :: "mstate \<Rightarrow> addr \<Rightarrow> int \<Rightarrow> mstate option" where
  "coalesce s p sz =
     (if p = NULL \<or> sz = 0 then Some s
      else
        let prev_elig = (INSIDE_HEAP s (GET_PREV s p)
                          \<and> GET_ALLOC s (GET_HEADER (GET_PREV s p)) = 0);
            next_elig = (INSIDE_HEAP s (GET_NEXT s p)
                          \<and> GET_ALLOC s (GET_HEADER (GET_NEXT s p)) = 0);
            start_p = p;
            free_size = sz
        in
        case (if prev_elig then
                map_option
                  (\<lambda>s1. (size_t (free_size + GET_SIZE s (GET_HEADER (GET_PREV s p))),
                         GET_PREV s1 p, s1))
                  (seg_list_remove s (GET_PREV s p))
              else Some (free_size, start_p, s)) of
          None \<Rightarrow> None
        | Some (free_size, start_p, s1) \<Rightarrow>
           (case (if next_elig then
                    map_option
                      (\<lambda>s2. (size_t (free_size + GET_SIZE s1 (GET_HEADER (GET_NEXT s1 p))), s2))
                      (seg_list_remove s1 (GET_NEXT s1 p))
                  else Some (free_size, s1)) of
              None \<Rightarrow> None
            | Some (free_size, s2) \<Rightarrow>
                let s3 = PUT s2 (GET_HEADER start_p) (PACK free_size 0);
                    s4 = PUT s3 (GET_FOOTER s3 start_p) (PACK free_size 0)
                in Some (seg_list_add s4 start_p)))"

definition mm_free :: "mstate \<Rightarrow> addr \<Rightarrow> mstate option" where
  "mm_free s p =
     (if p = NULL then Some s
      else coalesce s p (GET_SIZE s (GET_HEADER p)))"

definition mm_realloc :: "mstate \<Rightarrow> addr \<Rightarrow> int \<Rightarrow> (addr \<times> mstate) option" where
  "mm_realloc s ptr sz =
     (if ptr = NULL then mm_malloc s sz
      else if sz = 0 then map_option (\<lambda>s1. (NULL, s1)) (mm_free s ptr)
      else
        case mm_malloc s sz of
          None \<Rightarrow> None
        | Some (new_ptr, s1) \<Rightarrow>
            if new_ptr = NULL then Some (NULL, s1)
            else
              let copySize = uint32 (GET_SIZE s1 (GET_HEADER ptr) - DSIZE);
                  copySize = (if sz < copySize then sz else copySize);
                  s2 = memcpy s1 new_ptr ptr copySize
              in case mm_free s2 ptr of
                   None \<Rightarrow> None
                 | Some s3 \<Rightarrow> Some (new_ptr, s3\<lparr>mem_bp := mem_heap_hi s3\<rparr>))"

section \<open>Heap structure: blocks, free lists, calls\<close>

type_synonym blk = "int \<times> bool"

definition tag :: "blk \<Rightarrow> int" where
  "tag b = fst b + (if snd b then 1 else 0)"

fun total :: "blk list \<Rightarrow> int" where
  "total [] = 0"
| "total (b # bs) = fst b + total bs"

fun tiles :: "(addr \<Rightarrow> byte) \<Rightarrow> addr \<Rightarrow> blk list \<Rightarrow> bool" where
  "tiles m a [] \<longleftrightarrow> True"
| "tiles m a (b # bs) \<longleftrightarrow>
     16 \<le> fst b \<and> fst b mod 8 = 0 \<and> get4 m a = tag b \<and> get4 m (a + fst b - 4) = tag b
     \<and> tiles m (a + fst b) bs"

fun cells :: "addr \<Rightarrow> blk list \<Rightarrow> (addr \<times> blk) list" where
  "cells a [] = []"
| "cells a (b # bs) = (a + 4, b) # cells (a + fst b) bs"

fun flist :: "(addr \<Rightarrow> byte) \<Rightarrow> addr \<Rightarrow> addr list \<Rightarrow> bool" where
  "flist m j [] \<longleftrightarrow> j = 0"
| "flist m j (x # xs) \<longleftrightarrow> j = x \<and> x \<noteq> 0 \<and> flist m (get8 m x) xs"

fun adj_free :: "blk list \<Rightarrow> bool" where
  "adj_free (x # y # r) \<longleftrightarrow> (\<not> snd x \<and> \<not> snd y) \<or> adj_free (y # r)"
| "adj_free _ \<longleftrightarrow> False"


definition sep8 :: "addr set \<Rightarrow> bool" where
  "sep8 A \<longleftrightarrow> (\<forall>x\<in>A. \<forall>y\<in>A. x \<noteq> y \<longrightarrow> x + 8 \<le> y \<or> y + 8 \<le> x)"


fun chain :: "mstate \<Rightarrow> addr \<Rightarrow> addr list \<Rightarrow> bool" where
  "chain s j [] \<longleftrightarrow> \<not> (INSIDE_HEAP s j \<and> j \<noteq> 0)"
| "chain s j (x # xs) \<longleftrightarrow> j = x \<and> INSIDE_HEAP s x \<and> x \<noteq> 0 \<and> chain s (GET_NEXT_FREE s x) xs"



text \<open>The free lists of the eight classes: \<open>fl c\<close> is the list of class \<open>c\<close>, read from the
  slot at \<open>base + 8 * c\<close>.\<close>

definition lists_ok :: "(addr \<Rightarrow> byte) \<Rightarrow> addr \<Rightarrow> (int \<Rightarrow> addr list) \<Rightarrow> bool" where
  "lists_ok m base fl \<longleftrightarrow> (\<forall>c. 0 \<le> c \<and> c < 8 \<longrightarrow> flist m (get8 m (base + 8 * c)) (fl c))"

definition nodes :: "(int \<Rightarrow> addr list) \<Rightarrow> addr set" where
  "nodes fl = (\<Union>c\<in>{0..7}. set (fl c))"

definition slots :: "addr \<Rightarrow> addr set" where
  "slots base = (\<lambda>c. base + 8 * c) ` {0..7}"

definition family_ok :: "addr \<Rightarrow> (int \<Rightarrow> addr list) \<Rightarrow> bool" where
  "family_ok base fl \<longleftrightarrow>
     (\<forall>c. 0 \<le> c \<and> c < 8 \<longrightarrow> distinct (fl c)) \<and>
     (\<forall>c c'. 0 \<le> c \<and> c < 8 \<and> 0 \<le> c' \<and> c' < 8 \<and> c \<noteq> c' \<longrightarrow> set (fl c) \<inter> set (fl c') = {}) \<and>
     sep8 (slots base \<union> nodes fl) \<and> slots base \<inter> nodes fl = {} \<and>
     (\<forall>x \<in> nodes fl. 0 < x \<and> x < 18446744073709551616)"

text \<open>Header and footer of the block with payload \<open>p\<close>, size \<open>sz\<close> and flag \<open>t\<close>.\<close>

definition set_tags :: "(addr \<Rightarrow> byte) \<Rightarrow> addr \<Rightarrow> int \<Rightarrow> int \<Rightarrow> (addr \<Rightarrow> byte)" where
  "set_tags m p sz t = put4 (put4 m (p - 4) (sz + t)) (p + sz - 8) (sz + t)"

text \<open>
  The invariant of the allocator between calls. The index table lies at \<open>seg_lists\<close>, the
  permanently allocated boundary block of 16 bytes has its header at \<open>seg_lists + 68\<close>, and
  the blocks \<open>bs\<close> (size and allocated flag, in address order) follow it up to 4 bytes
  past the end of the region: every footer lies 4 bytes behind its block's end as the
  code computes it. Each header and footer holds the size and flag of its block, no two
  neighbours are free, and the list of class \<open>c\<close> holds exactly the free blocks of that
  class, once each.
\<close>

definition class_ptrs :: "addr \<Rightarrow> blk list \<Rightarrow> int \<Rightarrow> addr set" where
  "class_ptrs a bs c = {p. \<exists>sz. (p, (sz, False)) \<in> set (cells a bs) \<and> get_size_class sz = c}"

definition heap_inv :: "mstate \<Rightarrow> blk list \<Rightarrow> (int \<Rightarrow> addr list) \<Rightarrow> bool" where
  "heap_inv s bs fl \<longleftrightarrow>
     0 \<le> seg_lists s \<and> mem_hp s = seg_lists s + 72 \<and> mem_bp s = mem_brk s - 1 \<and>
     mem_brk s \<le> mem_max_addr s \<and> mem_max_addr s - seg_lists s < 4294967296 \<and>
     mem_max_addr s \<le> 18446744073709551616 \<and>
     seg_lists s + 84 + total bs = mem_brk s + 4 \<and>
     tiles (mem s) (seg_lists s + 68) ((16, True) # bs) \<and>
     \<not> adj_free bs \<and>
     lists_ok (mem s) (seg_lists s) fl \<and>
     (\<forall>c. 0 \<le> c \<and> c < 8 \<longrightarrow>
        distinct (fl c) \<and> set (fl c) = class_ptrs (seg_lists s + 84) bs c)"

text \<open>What holds of the heap also in the middle of an operation: the blocks tile the heap
  and the lists are well formed chains of distinct blocks, but a listed block need not be
  tagged free yet, nor a free block listed.\<close>

definition struct :: "mstate \<Rightarrow> blk list \<Rightarrow> (int \<Rightarrow> addr list) \<Rightarrow> bool" where
  "struct s bs fl \<longleftrightarrow>
     0 \<le> seg_lists s \<and> mem_hp s = seg_lists s + 72 \<and> mem_bp s = mem_brk s - 1 \<and>
     mem_brk s \<le> mem_max_addr s \<and> mem_max_addr s - seg_lists s < 4294967296 \<and>
     mem_max_addr s \<le> 18446744073709551616 \<and>
     seg_lists s + 84 + total bs = mem_brk s + 4 \<and>
     tiles (mem s) (seg_lists s + 68) ((16, True) # bs) \<and>
     lists_ok (mem s) (seg_lists s) fl \<and>
     (\<forall>c. 0 \<le> c \<and> c < 8 \<longrightarrow> distinct (fl c)) \<and>
     (\<forall>c c'. 0 \<le> c \<and> c < 8 \<and> 0 \<le> c' \<and> c' < 8 \<and> c \<noteq> c' \<longrightarrow> set (fl c) \<inter> set (fl c') = {}) \<and>
     (\<forall>x \<in> nodes fl. \<exists>b. (x, b) \<in> set (cells (seg_lists s + 84) bs))"

text \<open>The allocated blocks after the boundary block: payload address and block size.\<close>

definition acells :: "mstate \<Rightarrow> blk list \<Rightarrow> (addr \<times> int) set" where
  "acells s bs = {(p, sz). (p, (sz, True)) \<in> set (cells (seg_lists s + 84) bs)}"

text \<open>Calls of the public interface, with the pointers that are live: \<open>pre\<close> is the
  documented precondition of a call, \<open>exec\<close> its effect, \<open>run\<close> a sequence of calls after
  \<^verbatim>\<open>mm_init\<close>. \<open>Store\<close> is the caller writing a word into a block it owns.\<close>

datatype call = Malloc int | Free addr | Realloc addr int | Store addr int

fun pre :: "mstate \<times> addr list \<Rightarrow> call \<Rightarrow> bool" where
  "pre (s, L) (Malloc n) \<longleftrightarrow> 0 \<le> n \<and> n < 2 ^ 64"
| "pre (s, L) (Free p) \<longleftrightarrow> p = NULL \<or> p \<in> set L"
| "pre (s, L) (Realloc p n) \<longleftrightarrow> (p = NULL \<or> p \<in> set L) \<and> 0 \<le> n \<and> n < 2 ^ 64"
| "pre (s, L) (Store a v) \<longleftrightarrow>
     (\<exists>p \<in> set L. p \<le> a \<and> a + 4 \<le> p + (GET_SIZE s (GET_HEADER p) - DSIZE))"

fun exec :: "mstate \<times> addr list \<Rightarrow> call \<Rightarrow> (mstate \<times> addr list) option" where
  "exec (s, L) (Malloc n) =
     (case mm_malloc s n of None \<Rightarrow> None
      | Some (p, s') \<Rightarrow> Some (s', if p = NULL then L else p # L))"
| "exec (s, L) (Free p) =
     (case mm_free s p of None \<Rightarrow> None
      | Some s' \<Rightarrow> Some (s', removeAll p L))"
| "exec (s, L) (Realloc p n) =
     (case mm_realloc s p n of None \<Rightarrow> None
      | Some (q, s') \<Rightarrow>
          Some (s', if q = NULL then (if n = 0 then removeAll p L else L)
                    else q # removeAll p L))"
| "exec (s, L) (Store a v) = Some (PUT s a v, L)"

fun run :: "mstate \<times> addr list \<Rightarrow> call list \<Rightarrow> (mstate \<times> addr list) option" where
  "run c [] = Some c"
| "run c (x # xs) = (if pre c x then (case exec c x of None \<Rightarrow> None | Some c' \<Rightarrow> run c' xs) else None)"

section \<open>The fit finder as the specification describes it\<close>




section \<open>Concrete states\<close>

text \<open>Memory that is zero except for a table of words, kept sorted by address.\<close>

definition zmem :: "addr \<Rightarrow> byte" where
  "zmem = (\<lambda>_. 0)"

definition ins :: "addr \<Rightarrow> int \<Rightarrow> (addr \<Rightarrow> byte) \<Rightarrow> (addr \<Rightarrow> byte)" where
  "ins a v m = put4 m a v"

definition copy :: "(addr \<Rightarrow> byte) \<Rightarrow> addr \<Rightarrow> addr \<Rightarrow> int \<Rightarrow> (addr \<Rightarrow> byte)" where
  "copy m dst src n = (\<lambda>a. if dst \<le> a \<and> a < dst + n then m (src + (a - dst)) else m a)"

text \<open>The heap after \<^verbatim>\<open>mm_init\<close> on a region at address 4096, the allocation of blocks of
  8, 8 and 24 bytes and the release of the first; and the same heap with a region provider
  that cannot grow.\<close>

definition st_demo :: mstate where
  "st_demo = \<lparr>mem =
     ins 4240 33 (ins 4212 33 (ins 4208 17 (ins 4196 17 (ins 4192 16 (ins 4188 0 (ins 4184 0
     (ins 4180 16 (ins 4176 17 (ins 4164 17 (ins 4152 0 (ins 4144 0 (ins 4136 0 (ins 4128 0
     (ins 4120 0 (ins 4112 0 (ins 4104 0 (ins 4100 0 (ins 4096 4184 zmem)))))))))))))))))),
     mem_brk = 4240, mem_max_addr = 8192, seg_lists = 4096, mem_hp = 4168, mem_bp = 4239\<rparr>"

definition st_full :: mstate where
  "st_full = st_demo\<lparr>mem_max_addr := 4240\<rparr>"










section \<open>Memory accesses\<close>

lemma split2: "0 \<le> b \<Longrightarrow> (v::int) mod (256 * b) = v mod 256 + 256 * (v div 256 mod b)"
  by (simp add: zmod_zmult2_eq)

lemma bytes_recompose:
  "(v::int) mod 256 + 256 * (v div 256 mod 256) + 65536 * (v div 65536 mod 256)
     + 16777216 * (v div 16777216 mod 256) = v mod 4294967296"
proof -
  have d: "v div 256 div 256 = v div 65536" "v div 65536 div 256 = v div 16777216"
    by (simp_all add: zdiv_zmult2_eq[symmetric])
  have a: "v mod 4294967296 = v mod 256 + 256 * (v div 256 mod 16777216)"
    using split2[of 16777216 v] by simp
  have b: "v div 256 mod 16777216 = v div 256 mod 256 + 256 * (v div 65536 mod 65536)"
    using split2[of 65536 "v div 256"] by (simp add: d)
  have c: "v div 65536 mod 65536 = v div 65536 mod 256 + 256 * (v div 16777216 mod 256)"
    using split2[of 256 "v div 65536"] by (simp add: d)
  show ?thesis unfolding a b c by simp
qed

lemma byte_bounds: "0 \<le> uint (w :: byte)" "uint (w :: byte) < 256"
  using uint_bounded[of w] by auto



lemma put4_out: "a < p \<or> p + 4 \<le> a \<Longrightarrow> put4 m p v a = m a"
  by (auto simp: put4_def)


lemma get4_cong: "(\<And>a. p \<le> a \<Longrightarrow> a < p + 4 \<Longrightarrow> m' a = m a) \<Longrightarrow> get4 m' p = get4 m p"
  by (simp add: get4_def)

lemma get8_cong: "(\<And>a. p \<le> a \<Longrightarrow> a < p + 8 \<Longrightarrow> m' a = m a) \<Longrightarrow> get8 m' p = get8 m p"
proof -
  assume h: "\<And>a. p \<le> a \<Longrightarrow> a < p + 8 \<Longrightarrow> m' a = m a"
  have 1: "get4 m' p = get4 m p" by (rule get4_cong) (simp add: h)
  have 2: "get4 m' (p + 4) = get4 m (p + 4)" by (rule get4_cong) (simp add: h)
  show ?thesis unfolding get8_def 1 2 ..
qed

lemma uint_byte_of_int: "uint (word_of_int v :: byte) = v mod 256"
  by (simp add: uint_word_of_int take_bit_eq_mod)

lemma get4_put4: "get4 (put4 m p v) p = v mod 4294967296"
proof -
  have "get4 (put4 m p v) p = v mod 256 + 256 * (v div 256 mod 256) + 65536 * (v div 65536 mod 256)
     + 16777216 * (v div 16777216 mod 256)"
    unfolding get4_def put4_def by (simp add: uint_byte_of_int)
  then show ?thesis by (simp only: bytes_recompose)
qed



lemma get4_put4_other: "q + 4 \<le> p \<or> p + 4 \<le> q \<Longrightarrow> get4 (put4 m p v) q = get4 m q"
  by (rule get4_cong) (auto simp: put4_out)


lemma get8_put4_other: "q + 8 \<le> p \<or> p + 4 \<le> q \<Longrightarrow> get8 (put4 m p v) q = get8 m q"
  by (rule get8_cong) (auto simp: put4_out)





lemma tag_size: "sz mod 8 = 0 \<Longrightarrow> 0 \<le> b \<Longrightarrow> b < 8 \<Longrightarrow> (sz + b) div 8 * 8 = (sz::int)"
  by presburger

lemma tag_alloc: "sz mod 8 = 0 \<Longrightarrow> (sz + b) mod 2 = (b::int) mod 2"
  by presburger

section \<open>Block sequences\<close>

lemma total_append [simp]: "total (xs @ ys) = total xs + total ys"
  by (induction xs) auto


lemma cells_append: "cells a (xs @ ys) = cells a xs @ cells (a + total xs) ys"
  by (induction xs arbitrary: a) (auto simp: add.assoc)

lemma tiles_total_nonneg: "tiles m a bs \<Longrightarrow> 0 \<le> total bs"
  by (induction bs arbitrary: a) auto

lemma tiles_cong:
  "(\<And>y. a \<le> y \<Longrightarrow> y < a + total bs \<Longrightarrow> m' y = m y) \<Longrightarrow> tiles m a bs \<Longrightarrow> tiles m' a bs"
proof (induction bs arbitrary: a)
  case Nil
  then show ?case by simp
next
  case (Cons b bs)
  from Cons.prems(2) have sz: "16 \<le> fst b" and t: "tiles m (a + fst b) bs" by auto
  have nn: "0 \<le> total bs" using t by (rule tiles_total_nonneg)
  have h: "get4 m' a = get4 m a"
    by (rule get4_cong) (use Cons.prems(1) sz nn in auto)
  have f: "get4 m' (a + fst b - 4) = get4 m (a + fst b - 4)"
    by (rule get4_cong) (use Cons.prems(1) sz nn in auto)
  have r: "tiles m' (a + fst b) bs"
    by (rule Cons.IH) (use Cons.prems(1) sz t in auto)
  show ?case using Cons.prems(2) h f r by simp
qed

lemma cells_bounds:
  "tiles m a bs \<Longrightarrow> (x, b) \<in> set (cells a bs) \<Longrightarrow>
     a + 4 \<le> x \<and> x - 4 + fst b \<le> a + total bs \<and> 16 \<le> fst b \<and> fst b mod 8 = 0
     \<and> get4 m (x - 4) = tag b \<and> get4 m (x + fst b - 8) = tag b"
proof (induction bs arbitrary: a)
  case Nil
  then show ?case by simp
next
  case (Cons c bs)
  from Cons.prems(1) have sz: "16 \<le> fst c" and t: "tiles m (a + fst c) bs" by auto
  have nn: "0 \<le> total bs" using t by (rule tiles_total_nonneg)
  show ?case
  proof (cases "(x, b) = (a + 4, c)")
    case True
    then have "x = a + 4" "b = c" by auto
    then show ?thesis using Cons.prems(1) nn by (simp add: algebra_simps)
  next
    case False
    then have "(x, b) \<in> set (cells (a + fst c) bs)" using Cons.prems(2) by auto
    from Cons.IH[OF t this] show ?thesis using sz by auto
  qed
qed


lemma distinct_cells: "tiles m a bs \<Longrightarrow> distinct (map fst (cells a bs))"
proof (induction bs arbitrary: a)
  case Nil
  then show ?case by simp
next
  case (Cons c bs)
  from Cons.prems(1) have sz: "16 \<le> fst c" and t: "tiles m (a + fst c) bs" by auto
  have lo: "\<And>y d. (y, d) \<in> set (cells (a + fst c) bs) \<Longrightarrow> a + 4 < y"
    using cells_bounds[OF t] sz by fastforce
  then have "a + 4 \<notin> fst ` set (cells (a + fst c) bs)" by force
  then show ?case using Cons.IH[OF t] by simp
qed

lemma cells_fst_unique:
  "tiles m a bs \<Longrightarrow> (x, b) \<in> set (cells a bs) \<Longrightarrow> (x, b') \<in> set (cells a bs) \<Longrightarrow> b' = b"
  using distinct_cells eq_key_imp_eq_value by metis

section \<open>Free lists\<close>



lemma flist_cong:
  "(\<And>x y. x \<in> set xs \<Longrightarrow> x \<le> y \<Longrightarrow> y < x + 8 \<Longrightarrow> m' y = m y) \<Longrightarrow> flist m j xs \<Longrightarrow> flist m' j xs"
proof (induction xs arbitrary: j)
  case Nil
  then show ?case by simp
next
  case (Cons x xs)
  have g: "get8 m' x = get8 m x"
    by (rule get8_cong) (use Cons.prems(1) in auto)
  have "flist m' (get8 m x) xs"
    by (rule Cons.IH) (use Cons.prems in auto)
  then show ?case using Cons.prems(2) g by simp
qed


lemma flist_unique: "flist m j xs \<Longrightarrow> flist m j ys \<Longrightarrow> xs = ys"
proof (induction xs arbitrary: j ys)
  case Nil
  then show ?case by (cases ys) auto
next
  case (Cons x xs)
  then show ?case by (cases ys) auto
qed

lemma flist_nonzero: "flist m j xs \<Longrightarrow> 0 \<notin> set xs"
  by (induction xs arbitrary: j) auto






lemma remove_scan_absent: "chain s j xs \<Longrightarrow> p \<notin> set xs \<Longrightarrow> remove_scan s p k j = Some s"
proof (induction xs arbitrary: j k)
  case Nil
  then show ?case by (subst remove_scan.simps) auto
next
  case (Cons x xs)
  then have jx: "j = x" "INSIDE_HEAP s x" "x \<noteq> 0" "p \<noteq> x" and c: "chain s (GET_NEXT_FREE s x) xs" by auto
  have "remove_scan s p k j = remove_scan s p x (GET_NEXT_FREE s x)"
    using jx by (subst remove_scan.simps) auto
  then show ?case using Cons.IH[OF c] Cons.prems(2) by simp
qed



section \<open>Writes that leave blocks and lists alone\<close>

lemma tiles_put4_out:
  "t + 4 \<le> a \<or> a + total bs \<le> t \<Longrightarrow> tiles m a bs \<Longrightarrow> tiles (put4 m t v) a bs"
  by (rule tiles_cong[of a bs "put4 m t v" m]) (auto simp: put4_out)



lemma flist_put4_out:
  "(\<And>x. x \<in> set xs \<Longrightarrow> x + 8 \<le> t \<or> t + 4 \<le> x) \<Longrightarrow> flist m j xs \<Longrightarrow> flist (put4 m t v) j xs"
proof (rule flist_cong[of xs "put4 m t v" m])
  fix x y assume a: "\<And>x. x \<in> set xs \<Longrightarrow> x + 8 \<le> t \<or> t + 4 \<le> x" "x \<in> set xs" "x \<le> y" "y < x + 8"
  from a(1)[OF a(2)] a(3,4) show "put4 m t v y = m y" by (intro put4_out) auto
qed



section \<open>Unlinking from and pushing on the class lists\<close>






section \<open>The fit finder\<close>











section \<open>Allocation: block size and the null result\<close>

lemma block_size_of_min: "16 \<le> block_size_of sz"
proof -
  have a: "size_t (size_t (sz + MIN_BLOCK_SIZE) - sz) = 16"
  proof -
    have "(size_t (sz + 16) - sz) mod 2 ^ 64 = ((sz + 16) mod 2 ^ 64 - sz mod 2 ^ 64) mod 2 ^ 64"
      unfolding size_t_def by (simp add: mod_diff_right_eq)
    also have "\<dots> = (sz + 16 - sz) mod 2 ^ 64" by (simp only: mod_diff_eq)
    finally show ?thesis by (simp add: size_t_def)
  qed
  have b: "ALIGN 16 = 16" by (simp add: ALIGN_def size_t_def)
  show ?thesis unfolding block_size_of_def Let_def a b by simp
qed

lemma grow_heap_result:
  "grow_heap s sz = (p, t) \<Longrightarrow>
     (p = 0 \<and> t = s \<and> (sz = 0 \<or> mem_max_addr s < mem_brk s + sz)) \<or>
     (p = mem_brk s + 8 \<and> sz \<noteq> 0 \<and> mem_brk s + sz \<le> mem_max_addr s)"
  by (auto simp: grow_heap_def mem_sbrk_def Let_def split: if_splits)

lemma mm_malloc_null:
  assumes "mm_malloc s sz = Some (p, t)" "0 \<le> mem_brk s"
  shows "p = 0 \<longleftrightarrow> sz = 0 \<or> (get_fit s (block_size_of sz) = Some 0
            \<and> fst (mem_sbrk s (block_size_of sz)) = None)"
    and "p = 0 \<Longrightarrow> t = s"
proof -
  have bs: "block_size_of sz \<noteq> 0" using block_size_of_min[of sz] by simp
  show "p = 0 \<longleftrightarrow> sz = 0 \<or> (get_fit s (block_size_of sz) = Some 0
            \<and> fst (mem_sbrk s (block_size_of sz)) = None)"
    using assms bs
    by (auto simp: mm_malloc_def Let_def mem_sbrk_def dest!: grow_heap_result
        split: option.splits if_splits prod.splits)
  show "p = 0 \<Longrightarrow> t = s"
    using assms bs
    by (auto simp: mm_malloc_def Let_def dest!: grow_heap_result
        split: option.splits if_splits prod.splits)
qed

section \<open>Evaluation on concrete states\<close>

lemma get4_zero: "get4 (\<lambda>_. 0) a = 0"
  by (simp add: get4_def)

lemma get4_put4_num:
  "a = b \<or> a + 4 \<le> b \<or> b + 4 \<le> a \<Longrightarrow> get4 (put4 m a v) b = (if a = b then v mod 4294967296 else get4 m b)"
  by (auto simp: get4_put4 get4_put4_other)

lemma upt8: "[0..<8] = [0,1,2,3,4,5,6,7]"
  by (simp add: upt_rec)

lemma put4_same: "put4 (put4 m a v) a w = put4 m a w"
  by (simp add: put4_def)

lemma put4_swap: "b + 4 \<le> a \<Longrightarrow> put4 (put4 m a v) b w = put4 (put4 m b w) a v"
  by (rule ext) (auto simp: put4_def)

lemma word_of_int_byte0: "word_of_int (uint (w::byte) + 256 * k) = w"
proof -
  have "word_of_int (uint w + 256 * k) = (word_of_int (uint w) :: byte)"
    unfolding word_of_int_eq_iff by (simp add: take_bit_eq_mod)
  then show ?thesis by simp
qed

lemma div_lead: "0 \<le> b \<Longrightarrow> b < c \<Longrightarrow> (b + c * x) div c = (x::int)"
  by (simp add: div_pos_pos_trivial)

lemma put4_get4_byte:
  "d \<le> a \<Longrightarrow> a < d + 4 \<Longrightarrow> put4 m d (get4 m' s) a = m' (s + (a - d))"
proof -
  assume "d \<le> a" "a < d + 4"
  then consider "a = d" | "a = d + 1" | "a = d + 2" | "a = d + 3" by linarith
  then show ?thesis
  proof cases
    case 1
    have "get4 m' s = uint (m' s) + 256 * (uint (m' (s + 1)) + 256 * uint (m' (s + 2)) + 65536 * uint (m' (s + 3)))"
      unfolding get4_def by simp
    then have "word_of_int (get4 m' s) = m' s"
      by (simp only: word_of_int_byte0)
    then show ?thesis using 1 by (simp add: put4_def)
  next
    case 2
    let ?X = "uint (m' (s + 1)) + 256 * (uint (m' (s + 2)) + 256 * uint (m' (s + 3)))"
    have e: "get4 m' s = uint (m' s) + 256 * ?X"
      unfolding get4_def by simp
    have "(uint (m' s) + 256 * ?X) div 256 = ?X"
      by (rule div_lead) (use byte_bounds[of "m' s"] in auto)
    then have "word_of_int (get4 m' s div 256) = m' (s + 1)"
      by (simp only: e word_of_int_byte0)
    then show ?thesis using 2 by (simp add: put4_def)
  next
    case 3
    let ?B = "uint (m' s) + 256 * uint (m' (s + 1))"
    let ?X = "uint (m' (s + 2)) + 256 * uint (m' (s + 3))"
    have b: "0 \<le> ?B" "?B < 65536"
      using byte_bounds[of "m' s"] byte_bounds[of "m' (s + 1)"] by auto
    have e: "get4 m' s = ?B + 65536 * ?X"
      unfolding get4_def by simp
    have "(?B + 65536 * ?X) div 65536 = ?X"
      by (rule div_lead) (use b in auto)
    then have "word_of_int (get4 m' s div 65536) = m' (s + 2)"
      by (simp only: e word_of_int_byte0)
    then show ?thesis using 3 by (simp add: put4_def)
  next
    case 4
    let ?B = "uint (m' s) + 256 * uint (m' (s + 1)) + 65536 * uint (m' (s + 2))"
    let ?X = "uint (m' (s + 3))"
    have b: "0 \<le> ?B" "?B < 16777216"
      using byte_bounds[of "m' s"] byte_bounds[of "m' (s + 1)"] byte_bounds[of "m' (s + 2)"] by auto
    have e: "get4 m' s = ?B + 16777216 * ?X"
      unfolding get4_def by simp
    have "(?B + 16777216 * ?X) div 16777216 = ?X"
      by (rule div_lead) (use b in auto)
    then have "word_of_int (get4 m' s div 16777216) = m' (s + 3)"
      by (simp only: e word_of_int_uint)
    then show ?thesis using 4 by (simp add: put4_def)
  qed
qed

lemma mem_memcpy: "mem (memcpy s dst src n) = copy (mem s) dst src n"
  by (simp add: memcpy_def copy_def fun_eq_iff)

lemma copy_0: "copy m dst src 0 = m"
  by (rule ext) (auto simp: copy_def)

lemma copy_step:
  "4 \<le> n \<Longrightarrow> dst + n \<le> src \<or> src + n \<le> dst \<Longrightarrow>
   copy m dst src n = copy (put4 m dst (get4 m src)) (dst + 4) (src + 4) (n - 4)"
proof (rule ext)
  fix a
  assume n: "4 \<le> n" and d: "dst + n \<le> src \<or> src + n \<le> dst"
  show "copy m dst src n a = copy (put4 m dst (get4 m src)) (dst + 4) (src + 4) (n - 4) a"
  proof (cases "dst \<le> a \<and> a < dst + 4")
    case True
    then show ?thesis using n by (simp add: copy_def put4_get4_byte)
  next
    case False
    then have o: "put4 m dst (get4 m src) a = m a" by (intro put4_out) auto
    show ?thesis
    proof (cases "dst + 4 \<le> a \<and> a < dst + n")
      case True
      then have "put4 m dst (get4 m src) (src + (a - dst)) = m (src + (a - dst))"
        using d by (intro put4_out) auto
      then show ?thesis using True by (simp add: copy_def algebra_simps)
    next
      case F2: False
      then show ?thesis using False o by (auto simp: copy_def)
    qed
  qed
qed

lemma put4_zmem: "put4 zmem b w = ins b w zmem"
  by (simp add: ins_def)

lemma put4_ins:
  "a = b \<or> a + 4 \<le> b \<or> b + 4 \<le> a \<Longrightarrow>
   put4 (ins a v m) b w =
     (if a = b then ins a w m else if a + 4 \<le> b then ins b w (ins a v m) else ins a v (put4 m b w))"
  unfolding ins_def by (rule ext) (auto simp: put4_def)

lemma get4_ins:
  "a = b \<or> a + 4 \<le> b \<or> b + 4 \<le> a \<Longrightarrow>
   get4 (ins a v m) b = (if a = b then v mod 4294967296 else get4 m b)"
  unfolding ins_def by (rule get4_put4_num)

lemma get4_zmem: "get4 zmem a = 0"
  by (simp add: zmem_def get4_def)

lemma put4_zmem0: "put4 zmem b 0 = zmem"
  by (rule ext) (simp add: put4_def zmem_def)

lemma memcpy_ev:
  "memcpy \<lparr>mem = m, mem_brk = b, mem_max_addr = x, seg_lists = l, mem_hp = h, mem_bp = e\<rparr> dst src n =
     \<lparr>mem = copy m dst src n, mem_brk = b, mem_max_addr = x, seg_lists = l, mem_hp = h, mem_bp = e\<rparr>"
  by (simp add: memcpy_def copy_def fun_eq_iff)

lemmas ev_rules =
  mm_init_def[of "\<lparr>mem = m, mem_brk = b, mem_max_addr = x, seg_lists = l, mem_hp = h, mem_bp = e\<rparr>"]
  mm_malloc_def[of "\<lparr>mem = m, mem_brk = b, mem_max_addr = x, seg_lists = l, mem_hp = h, mem_bp = e\<rparr>"]
  mm_free_def[of "\<lparr>mem = m, mem_brk = b, mem_max_addr = x, seg_lists = l, mem_hp = h, mem_bp = e\<rparr>"]
  mm_realloc_def[of "\<lparr>mem = m, mem_brk = b, mem_max_addr = x, seg_lists = l, mem_hp = h, mem_bp = e\<rparr>"]
  coalesce_def[of "\<lparr>mem = m, mem_brk = b, mem_max_addr = x, seg_lists = l, mem_hp = h, mem_bp = e\<rparr>"]
  place_def[of "\<lparr>mem = m, mem_brk = b, mem_max_addr = x, seg_lists = l, mem_hp = h, mem_bp = e\<rparr>"]
  grow_heap_def[of "\<lparr>mem = m, mem_brk = b, mem_max_addr = x, seg_lists = l, mem_hp = h, mem_bp = e\<rparr>"]
  seg_list_add_def[of "\<lparr>mem = m, mem_brk = b, mem_max_addr = x, seg_lists = l, mem_hp = h, mem_bp = e\<rparr>"]
  seg_list_remove_def[of "\<lparr>mem = m, mem_brk = b, mem_max_addr = x, seg_lists = l, mem_hp = h, mem_bp = e\<rparr>"]
  get_fit_def[of "\<lparr>mem = m, mem_brk = b, mem_max_addr = x, seg_lists = l, mem_hp = h, mem_bp = e\<rparr>"]
  mem_sbrk_def[of "\<lparr>mem = m, mem_brk = b, mem_max_addr = x, seg_lists = l, mem_hp = h, mem_bp = e\<rparr>"]
  mem_heap_hi_def[of "\<lparr>mem = m, mem_brk = b, mem_max_addr = x, seg_lists = l, mem_hp = h, mem_bp = e\<rparr>"]
  GET_def[of "\<lparr>mem = m, mem_brk = b, mem_max_addr = x, seg_lists = l, mem_hp = h, mem_bp = e\<rparr>"]
  PUT_def[of "\<lparr>mem = m, mem_brk = b, mem_max_addr = x, seg_lists = l, mem_hp = h, mem_bp = e\<rparr>"]
  GET_PTR_ADDR_def[of "\<lparr>mem = m, mem_brk = b, mem_max_addr = x, seg_lists = l, mem_hp = h, mem_bp = e\<rparr>"]
  PUT_PTR_ADDR_def[of "\<lparr>mem = m, mem_brk = b, mem_max_addr = x, seg_lists = l, mem_hp = h, mem_bp = e\<rparr>"]
  GET_SIZE_def[of "\<lparr>mem = m, mem_brk = b, mem_max_addr = x, seg_lists = l, mem_hp = h, mem_bp = e\<rparr>"]
  GET_ALLOC_def[of "\<lparr>mem = m, mem_brk = b, mem_max_addr = x, seg_lists = l, mem_hp = h, mem_bp = e\<rparr>"]
  GET_FOOTER_def[of "\<lparr>mem = m, mem_brk = b, mem_max_addr = x, seg_lists = l, mem_hp = h, mem_bp = e\<rparr>"]
  GET_NEXT_def[of "\<lparr>mem = m, mem_brk = b, mem_max_addr = x, seg_lists = l, mem_hp = h, mem_bp = e\<rparr>"]
  GET_PREV_def[of "\<lparr>mem = m, mem_brk = b, mem_max_addr = x, seg_lists = l, mem_hp = h, mem_bp = e\<rparr>"]
  GET_NEXT_FREE_def[of "\<lparr>mem = m, mem_brk = b, mem_max_addr = x, seg_lists = l, mem_hp = h, mem_bp = e\<rparr>"]
  INSIDE_HEAP_def[of "\<lparr>mem = m, mem_brk = b, mem_max_addr = x, seg_lists = l, mem_hp = h, mem_bp = e\<rparr>"]
  fit_scan.simps[of "\<lparr>mem = m, mem_brk = b, mem_max_addr = x, seg_lists = l, mem_hp = h, mem_bp = e\<rparr>"]
  remove_scan.simps[of "\<lparr>mem = m, mem_brk = b, mem_max_addr = x, seg_lists = l, mem_hp = h, mem_bp = e\<rparr>"]
  get_fit_from.simps[of "\<lparr>mem = m, mem_brk = b, mem_max_addr = x, seg_lists = l, mem_hp = h, mem_bp = e\<rparr>"]
  for m b x l h e

lemmas ev_defs = ev_rules get_size_class_def block_size_of_def GET_HEADER_def
  ALIGN_def PACK_def size_t_def uint32_def int32_def get8_def put8_def Let_def
  upt8 put4_zmem put4_ins get4_ins get4_zmem copy_0 copy_step memcpy_ev

declare get_fit_from.simps [simp del]


section \<open>Consequences of the invariant\<close>

lemma cells_sep:
  "tiles m a bs \<Longrightarrow> (x, b) \<in> set (cells a bs) \<Longrightarrow> (y, b') \<in> set (cells a bs) \<Longrightarrow> x \<noteq> y
     \<Longrightarrow> x + 16 \<le> y \<or> y + 16 \<le> x"
proof (induction bs arbitrary: a)
  case Nil
  then show ?case by simp
next
  case (Cons c bs)
  from Cons.prems(1) have sz: "16 \<le> fst c" and t: "tiles m (a + fst c) bs" by auto
  have lo: "a + fst c + 4 \<le> z" if "(z, d) \<in> set (cells (a + fst c) bs)" for z d
    using cells_bounds[OF t that] by simp
  consider "x = a + 4" "(y, b') \<in> set (cells (a + fst c) bs)"
    | "y = a + 4" "(x, b) \<in> set (cells (a + fst c) bs)"
    | "(x, b) \<in> set (cells (a + fst c) bs)" "(y, b') \<in> set (cells (a + fst c) bs)"
    using Cons.prems(2,3,4) by auto
  then show ?case
  proof cases
    case 1
    then show ?thesis using lo[OF 1(2)] sz by simp
  next
    case 2
    then show ?thesis using lo[OF 2(2)] sz by simp
  next
    case 3
    then show ?thesis using Cons.IH[OF t 3 Cons.prems(4)] by simp
  qed
qed

lemma struct_tiles: "struct s bs fl \<Longrightarrow> tiles (mem s) (seg_lists s + 84) bs"
  unfolding struct_def by (simp add: add.commute add.left_commute)

lemma struct_cell:
  assumes "struct s bs fl" "(p, b) \<in> set (cells (seg_lists s + 84) bs)"
  shows "seg_lists s + 88 \<le> p" "p + fst b \<le> mem_brk s + 8" "16 \<le> fst b" "fst b mod 8 = 0"
    "fst b < 4294967296" "GET s (p - 4) = tag b" "GET s (p + fst b - 8) = tag b"
    "INSIDE_HEAP s p" "0 < p" "p < 18446744073709551616"
    "GET_SIZE s (GET_HEADER p) = fst b" "GET_ALLOC s (GET_HEADER p) = (if snd b then 1 else 0)"
    "GET_SIZE s (p + fst b - 8) = fst b"
proof -
  note cb = cells_bounds[OF struct_tiles[OF assms(1)] assms(2)]
  have en: "seg_lists s + 84 + total bs = mem_brk s + 4" and hp: "mem_hp s = seg_lists s + 72"
    and bp: "mem_bp s = mem_brk s - 1" and b0: "0 \<le> seg_lists s"
    and mx: "mem_brk s \<le> mem_max_addr s" "mem_max_addr s - seg_lists s < 4294967296"
      "mem_max_addr s \<le> 18446744073709551616"
    using assms(1) unfolding struct_def by auto
  show 1: "seg_lists s + 88 \<le> p" using cb by simp
  show 2: "p + fst b \<le> mem_brk s + 8" using cb en by simp
  show 3: "16 \<le> fst b" "fst b mod 8 = 0" using cb by auto
  show 4: "fst b < 4294967296" using 1 2 3 mx b0 by linarith
  show 5: "GET s (p - 4) = tag b" "GET s (p + fst b - 8) = tag b" using cb by (auto simp: GET_def)
  show "INSIDE_HEAP s p" using 1 2 3 hp bp by (simp add: INSIDE_HEAP_def)
  show "0 < p" using 1 b0 by simp
  show "p < 18446744073709551616" using 2 3 mx by linarith
  have tg: "tag b = fst b + (if snd b then 1 else 0)" by (simp add: tag_def)
  show "GET_SIZE s (GET_HEADER p) = fst b"
    using 5 3 tag_size[of "fst b" "if snd b then 1 else 0"] by (simp add: GET_SIZE_def GET_HEADER_def tg)
  show "GET_ALLOC s (GET_HEADER p) = (if snd b then 1 else 0)"
    using 5 3 tag_alloc[of "fst b" "if snd b then 1 else 0"] by (simp add: GET_ALLOC_def GET_HEADER_def tg)
  show "GET_SIZE s (p + fst b - 8) = fst b"
    using 5 3 tag_size[of "fst b" "if snd b then 1 else 0"] by (simp add: GET_SIZE_def tg)
qed

lemma struct_node:
  assumes "struct s bs fl" "x \<in> nodes fl"
  shows "\<exists>b. (x, b) \<in> set (cells (seg_lists s + 84) bs)"
  using assms unfolding struct_def by blast

lemma struct_family: assumes h: "struct s bs fl" shows "family_ok (seg_lists s) fl"
proof -
  note t = struct_tiles[OF h]
  note cellof = struct_node[OF h]
  have slot_lo: "y \<le> seg_lists s + 56 \<and> seg_lists s \<le> y" if "y \<in> slots (seg_lists s)" for y
    using that unfolding slots_def by auto
  have slot_sep: "x + 8 \<le> y \<or> y + 8 \<le> x" if "x \<in> slots (seg_lists s)" "y \<in> slots (seg_lists s)" "x \<noteq> y" for x y
    using that unfolding slots_def by auto
  have node_lo: "seg_lists s + 88 \<le> x" if "x \<in> nodes fl" for x
    using cellof[OF that] struct_cell(1)[OF h] by auto
  have node_sep: "x + 8 \<le> y \<or> y + 8 \<le> x" if xn: "x \<in> nodes fl" and yn: "y \<in> nodes fl" and ne: "x \<noteq> y" for x y
  proof -
    obtain sx where sx: "(x, sx) \<in> set (cells (seg_lists s + 84) bs)" using cellof[OF xn] by blast
    obtain sy where sy: "(y, sy) \<in> set (cells (seg_lists s + 84) bs)" using cellof[OF yn] by blast
    from cells_sep[OF t sx sy ne] show ?thesis by linarith
  qed
  have 1: "\<forall>c. 0 \<le> c \<and> c < 8 \<longrightarrow> distinct (fl c)" using h unfolding struct_def by metis
  have 2: "\<forall>c c'. 0 \<le> c \<and> c < 8 \<and> 0 \<le> c' \<and> c' < 8 \<and> c \<noteq> c' \<longrightarrow> set (fl c) \<inter> set (fl c') = {}"
    using h unfolding struct_def by metis
  have 3: "sep8 (slots (seg_lists s) \<union> nodes fl)"
    unfolding sep8_def
  proof (intro ballI impI)
    fix x y assume a: "x \<in> slots (seg_lists s) \<union> nodes fl" "y \<in> slots (seg_lists s) \<union> nodes fl" "x \<noteq> y"
    then consider "x \<in> slots (seg_lists s)" "y \<in> slots (seg_lists s)"
      | "x \<in> slots (seg_lists s)" "y \<in> nodes fl" | "x \<in> nodes fl" "y \<in> slots (seg_lists s)"
      | "x \<in> nodes fl" "y \<in> nodes fl" by auto
    then show "x + 8 \<le> y \<or> y + 8 \<le> x"
    proof cases
      case 1 then show ?thesis using slot_sep a(3) by simp
    next
      case 2 then show ?thesis using slot_lo[of x] node_lo[of y] by simp
    next
      case 3 then show ?thesis using slot_lo[of y] node_lo[of x] by simp
    next
      case 4 then show ?thesis using node_sep a(3) by simp
    qed
  qed
  have 4: "slots (seg_lists s) \<inter> nodes fl = {}" using slot_lo node_lo by fastforce
  have 5: "\<forall>x \<in> nodes fl. 0 < x \<and> x < 18446744073709551616"
    using cellof struct_cell(9,10)[OF h] by blast
  show ?thesis unfolding family_ok_def using 1 2 3 4 5 by blast
qed


lemma inv_node:
  assumes "heap_inv s bs fl" "0 \<le> c" "c < 8" "x \<in> set (fl c)"
  shows "\<exists>sz. (x, (sz, False)) \<in> set (cells (seg_lists s + 84) bs) \<and> get_size_class sz = c"
proof -
  have "set (fl c) = class_ptrs (seg_lists s + 84) bs c" using assms(1,2,3) unfolding heap_inv_def by metis
  then show ?thesis using assms(4) by (auto simp: class_ptrs_def)
qed


lemma inv_struct: assumes h: "heap_inv s bs fl" shows "struct s bs fl"
proof -
  have t: "tiles (mem s) (seg_lists s + 84) bs"
    using h unfolding heap_inv_def by (simp add: add.commute add.left_commute)
  have 2: "\<forall>c c'. 0 \<le> c \<and> c < 8 \<and> 0 \<le> c' \<and> c' < 8 \<and> c \<noteq> c' \<longrightarrow> set (fl c) \<inter> set (fl c') = {}"
  proof (intro allI impI)
    fix c c' :: int assume a: "0 \<le> c \<and> c < 8 \<and> 0 \<le> c' \<and> c' < 8 \<and> c \<noteq> c'"
    show "set (fl c) \<inter> set (fl c') = {}"
    proof (rule ccontr)
      assume "set (fl c) \<inter> set (fl c') \<noteq> {}"
      then obtain x where x: "x \<in> set (fl c)" "x \<in> set (fl c')" by auto
      obtain sz where 1: "(x, (sz, False)) \<in> set (cells (seg_lists s + 84) bs)" "get_size_class sz = c"
        using inv_node[OF h _ _ x(1)] a by auto
      obtain sz' where 2: "(x, (sz', False)) \<in> set (cells (seg_lists s + 84) bs)" "get_size_class sz' = c'"
        using inv_node[OF h _ _ x(2)] a by auto
      have "(sz', False) = (sz, False)" using cells_fst_unique[OF t 1(1) 2(1)] .
      then show False using 1 2 a by simp
    qed
  qed
  have 3: "\<forall>x \<in> nodes fl. \<exists>b. (x, b) \<in> set (cells (seg_lists s + 84) bs)"
    using inv_node[OF h] unfolding nodes_def by fastforce
  show ?thesis using h 2 3 unfolding heap_inv_def struct_def by auto
qed

lemmas inv_family = struct_family[OF inv_struct]


section \<open>Writing boundary tags\<close>

lemma st_simps [simp]:
  "mem (PUT s p v) = put4 (mem s) p v" "mem_brk (PUT s p v) = mem_brk s"
  "mem_max_addr (PUT s p v) = mem_max_addr s" "seg_lists (PUT s p v) = seg_lists s"
  "mem_hp (PUT s p v) = mem_hp s" "mem_bp (PUT s p v) = mem_bp s"
  "mem (PUT_PTR_ADDR s p v) = put8 (mem s) p v" "mem_brk (PUT_PTR_ADDR s p v) = mem_brk s"
  "mem_max_addr (PUT_PTR_ADDR s p v) = mem_max_addr s" "seg_lists (PUT_PTR_ADDR s p v) = seg_lists s"
  "mem_hp (PUT_PTR_ADDR s p v) = mem_hp s" "mem_bp (PUT_PTR_ADDR s p v) = mem_bp s"
  by (simp_all add: PUT_def PUT_PTR_ADDR_def)

lemma PUT_as_update: "PUT s p v = s\<lparr>mem := put4 (mem s) p v\<rparr>"
  by (simp add: PUT_def)




lemma set_tags_out:
  "8 \<le> sz \<Longrightarrow> y < p - 4 \<or> p + sz - 4 \<le> y \<or> (p \<le> y \<and> y < p + sz - 8) \<Longrightarrow>
     set_tags m p sz t y = m y"
  unfolding set_tags_def by (auto simp: put4_out)




lemma get8_set_tags_other:
  "8 \<le> sz \<Longrightarrow> q + 8 \<le> p - 4 \<or> p + sz - 4 \<le> q \<or> (p \<le> q \<and> q + 8 \<le> p + sz - 8) \<Longrightarrow>
     get8 (set_tags m p sz t) q = get8 m q"
  by (rule get8_cong) (auto simp: set_tags_out)

lemma flist_set_tags:
  "8 \<le> sz \<Longrightarrow> (\<And>x. x \<in> set xs \<Longrightarrow> x + 8 \<le> p - 4 \<or> p + sz - 4 \<le> x \<or> (p \<le> x \<and> x + 8 \<le> p + sz - 8)) \<Longrightarrow>
   flist m j xs \<Longrightarrow> flist (set_tags m p sz t) j xs"
proof (rule flist_cong[of xs "set_tags m p sz t" m])
  fix x y
  assume a: "\<And>x. x \<in> set xs \<Longrightarrow> x + 8 \<le> p - 4 \<or> p + sz - 4 \<le> x \<or> (p \<le> x \<and> x + 8 \<le> p + sz - 8)"
    "x \<in> set xs" "x \<le> y" "y < x + 8" and s: "8 \<le> sz"
  from a(1)[OF a(2)] a(3,4) show "set_tags m p sz t y = m y" by (intro set_tags_out[OF s]) auto
qed

lemma tiles_set_tags_out:
  "8 \<le> sz \<Longrightarrow> p + sz - 4 \<le> a \<or> a + total bs \<le> p - 4 \<Longrightarrow> tiles m a bs \<Longrightarrow> tiles (set_tags m p sz t) a bs"
  by (rule tiles_cong[of a bs "set_tags m p sz t" m]) (auto simp: set_tags_out)

section \<open>Block sizes and the effect of the list operations\<close>


lemma block_size_of_fits:
  assumes "0 < sz" "sz + 15 < 18446744073709551616"
  shows "sz + 8 \<le> block_size_of sz" "block_size_of sz \<le> sz + 15"
proof -
  have a: "size_t (sz + 8) = sz + 8" unfolding size_t_def using assms by (intro mod_pos_pos_trivial) auto
  have "(sz + 15) mod 18446744073709551616 = sz + 15" using assms by (intro mod_pos_pos_trivial) auto
  then have b: "size_t (sz + 8 + 7) = sz + 15" unfolding size_t_def by (simp add: add.assoc)
  have c: "ALIGN (size_t (sz + 8)) = (sz + 15) div 8 * 8" unfolding ALIGN_def a using b by simp
  have d: "sz + 8 \<le> (sz + 15) div 8 * 8" "(sz + 15) div 8 * 8 \<le> sz + 15" by presburger+
  have e: "16 \<le> (sz + 15) div 8 * 8" using assms(1) by presburger
  show "sz + 8 \<le> block_size_of sz" "block_size_of sz \<le> sz + 15"
    using d e unfolding block_size_of_def Let_def c by auto
qed




lemma class_ptrs_Nil [simp]: "class_ptrs a [] c = {}"
  by (simp add: class_ptrs_def)



lemma adj_free_Cons:
  "adj_free (x # ys) \<longleftrightarrow> (ys \<noteq> [] \<and> \<not> snd x \<and> \<not> snd (hd ys)) \<or> adj_free ys"
  by (cases ys) auto

lemma adj_free_append:
  "adj_free (xs @ ys) \<longleftrightarrow>
     adj_free xs \<or> adj_free ys \<or> (xs \<noteq> [] \<and> ys \<noteq> [] \<and> \<not> snd (last xs) \<and> \<not> snd (hd ys))"
proof (induction xs)
  case Nil
  then show ?case by simp
next
  case (Cons x xs)
  show ?case
  proof (cases xs)
    case Nil
    then show ?thesis by (auto simp: adj_free_Cons)
  next
    case (Cons y zs)
    then show ?thesis using Cons.IH by (auto simp: adj_free_Cons)
  qed
qed

section \<open>Allocation by growing the heap\<close>






lemma acells_mid:
  assumes t: "tiles (mem s) (seg_lists s + 84) (xs @ b # ys)"
  shows "acells s (xs @ b # ys) =
     {(p, sz). (p, (sz, True)) \<in> set (cells (seg_lists s + 84) xs)}
     \<union> (if snd b then {(seg_lists s + 84 + total xs + 4, fst b)} else {})
     \<union> {(p, sz). (p, (sz, True)) \<in> set (cells (seg_lists s + 84 + total xs + fst b) ys)}"
  by (cases b) (auto simp: acells_def cells_append)




lemma adj_free_mid_isolated:
  "\<not> adj_free xs \<Longrightarrow> \<not> adj_free ys \<Longrightarrow> xs = [] \<or> snd (last xs) \<Longrightarrow> ys = [] \<or> snd (hd ys) \<Longrightarrow>
     \<not> adj_free (xs @ (sz, False) # ys)"
  by (auto simp: adj_free_append adj_free_Cons)


section \<open>The list operations on a well-formed heap\<close>











section \<open>Allocation from the index\<close>




lemma cells_aligned:
  "tiles m a bs \<Longrightarrow> (p, b) \<in> set (cells a bs) \<Longrightarrow> (p - a - 4) mod 8 = 0"
proof (induction bs arbitrary: a)
  case Nil
  then show ?case by simp
next
  case (Cons x bs)
  show ?case
  proof (cases "p = a + 4")
    case True
    then show ?thesis by simp
  next
    case False
    then have "(p, b) \<in> set (cells (a + fst x) bs)" using Cons.prems(2) by (cases x) auto
    moreover have "tiles m (a + fst x) bs" "fst x mod 8 = 0" using Cons.prems(1) by (cases x, auto)+
    ultimately have "(p - (a + fst x) - 4) mod 8 = 0" using Cons.IH by blast
    then have "(p - a - 4 - fst x) mod 8 = 0" by (simp add: algebra_simps)
    then show ?thesis using \<open>fst x mod 8 = 0\<close> by (metis mod_diff_eq diff_zero mod_0 mod_mod_trivial diff_0_right)
  qed
qed


section \<open>The fit finder and its specification\<close>






section \<open>The claims\<close>





text \<open>
  Claim C10. For a non-null pointer and a size other than 0, when the allocation made by
  \<^verbatim>\<open>mm_realloc\<close> fails (\<^verbatim>\<open>mm_malloc\<close> yields \<open>NULL\<close>), \<^verbatim>\<open>mm_realloc\<close> returns \<open>NULL\<close> and
  the whole state (memory with every tag and payload, the index, the heap bounds, the
  region) is the one before the call: nothing was released or written.
\<close>

theorem realloc_failure_atomic:
  assumes "ptr \<noteq> NULL" "sz \<noteq> 0" "0 \<le> mem_brk s" "mm_malloc s sz = Some (NULL, t)"
  shows "mm_realloc s ptr sz = Some (NULL, s)"
  using assms mm_malloc_null(2)[of s sz 0 t] by (simp add: mm_realloc_def)

lemma st_full_malloc: "mm_malloc st_full 100 = Some (0, st_full)"
  by (simp add: ev_defs st_full_def st_demo_def)

theorem realloc_failure_atomic_witness:
  "(4216::int) \<noteq> NULL \<and> (100::int) \<noteq> 0 \<and> 0 \<le> mem_brk st_full
   \<and> mm_malloc st_full 100 = Some (NULL, st_full)
   \<and> mm_realloc st_full 4216 100 = Some (NULL, st_full)"
proof -
  have b: "0 \<le> mem_brk st_full" by (simp add: st_full_def st_demo_def)
  from realloc_failure_atomic[OF _ _ b st_full_malloc, of 4216] show ?thesis
    using b st_full_malloc by simp
qed












end
